theory Spec2Isabelle
  imports Main "HOL-Library.Word" "HOL-Library.Sublist" "HOL-Library.AList"
begin

section \<open>Pixel data\<close>

text \<open>
  \<^verbatim>\<open>cv2.imread\<close> yields an array of shape (height, width, 3) with dtype uint8, the
  channels in the order blue, green, red.  An image is the list of its rows, a row the
  list of its pixels.  The mask of GrabCut is an array of shape (height, width) and dtype
  uint8; the four labels are OpenCV's constants.
\<close>

type_synonym u8 = "8 word"
type_synonym pixel = "u8 \<times> u8 \<times> u8"
type_synonym image = "pixel list list"
type_synonym plane = "u8 list list"
type_synonym rgba = "(u8 \<times> u8 \<times> u8 \<times> u8) list list"
type_synonym rect = "int \<times> int \<times> int \<times> int"

definition GC_BGD :: u8 where "GC_BGD = 0"
definition GC_FGD :: u8 where "GC_FGD = 1"
definition GC_PR_BGD :: u8 where "GC_PR_BGD = 2"
definition GC_PR_FGD :: u8 where "GC_PR_FGD = 3"

text \<open>\<^verbatim>\<open>height, width = img.shape[:2]\<close>\<close>

definition height_of :: "'a list list \<Rightarrow> int" where
  "height_of img = int (length img)"

definition width_of :: "'a list list \<Rightarrow> int" where
  "width_of img = (case img of [] \<Rightarrow> 0 | row # _ \<Rightarrow> int (length row))"

text \<open>\<^verbatim>\<open>np.zeros(img.shape[:2], np.uint8)\<close>\<close>

definition np_zeros :: "int \<Rightarrow> int \<Rightarrow> plane" where
  "np_zeros h w = replicate (nat h) (replicate (nat w) 0)"

text \<open>Two arrays agree in their first two axes.\<close>

definition same_dims :: "'a list list \<Rightarrow> 'b list list \<Rightarrow> bool" where
  "same_dims img msk = list_all2 (\<lambda>row mrow. length mrow = length row) img msk"

section \<open>The initialization rectangle\<close>

text \<open>
  \<^verbatim>\<open>int(width * 0.05)\<close> and \<^verbatim>\<open>int(width * 0.1)\<close> multiply a non-negative Python
  integer by a double and truncate.  The doubles nearest to 0.05 and 0.1 lie above 1/20
  and 1/10 by less than 1e-17, so for every array dimension (below 2^31) the truncated
  product is the integer quotient by 20 and by 10.
\<close>

definition int_times_005 :: "int \<Rightarrow> int" where
  "int_times_005 n = n div 20"

definition int_times_01 :: "int \<Rightarrow> int" where
  "int_times_01 n = n div 10"

text \<open>
  \<^verbatim>\<open>rect = (max(1, int(width * 0.05)), max(1, int(height * 0.05)),
          width - int(width * 0.1), height - int(height * 0.1))\<close>
\<close>

definition init_rect :: "int \<Rightarrow> int \<Rightarrow> rect" where
  "init_rect width height =
     (max 1 (int_times_005 width),
      max 1 (int_times_005 height),
      width - int_times_01 width,
      height - int_times_01 height)"

text \<open>A rectangle (x, y, w, h) against an image of the given width and height.\<close>

definition rect_positive :: "rect \<Rightarrow> bool" where
  "rect_positive rect = (case rect of (x, y, w, h) \<Rightarrow> 0 < w \<and> 0 < h)"

definition rect_within :: "int \<Rightarrow> int \<Rightarrow> rect \<Rightarrow> bool" where
  "rect_within width height rect =
     (case rect of (x, y, w, h) \<Rightarrow> 0 \<le> x \<and> 0 \<le> y \<and> x + w \<le> width \<and> y + h \<le> height)"

definition rect_strictly_within :: "int \<Rightarrow> int \<Rightarrow> rect \<Rightarrow> bool" where
  "rect_strictly_within width height rect =
     (case rect of (x, y, w, h) \<Rightarrow> 0 < x \<and> 0 < y \<and> x + w < width \<and> y + h < height)"

section \<open>The alpha compositor\<close>

text \<open>
  \<^verbatim>\<open>mask2 = np.where((mask == cv2.GC_BGD) | (mask == cv2.GC_PR_BGD), 0, 1).astype('uint8')\<close>
\<close>

definition mask2_cell :: "u8 \<Rightarrow> u8" where
  "mask2_cell m = (if m = GC_BGD \<or> m = GC_PR_BGD then 0 else 1)"

definition mask2_of :: "plane \<Rightarrow> plane" where
  "mask2_of msk = map (map mask2_cell) msk"

text \<open>
  \<^verbatim>\<open>img_foreground = img * mask2[:, :, np.newaxis]\<close>: every channel of a pixel is
  multiplied by the cell of the mask, in uint8.
\<close>

definition times_cell :: "pixel \<Rightarrow> u8 \<Rightarrow> pixel" where
  "times_cell p m = (case p of (b, g, r) \<Rightarrow> (b * m, g * m, r * m))"

definition times_mask :: "image \<Rightarrow> plane \<Rightarrow> image" where
  "times_mask img mask2 = map2 (\<lambda>row mrow. map2 times_cell row mrow) img mask2"

text \<open>\<^verbatim>\<open>alpha = (mask2 * 255).astype(np.uint8)\<close>\<close>

definition alpha_of :: "plane \<Rightarrow> plane" where
  "alpha_of mask2 = map (map (\<lambda>m. m * 255)) mask2"

text \<open>\<^verbatim>\<open>b, g, r = cv2.split(img_foreground)\<close> and \<^verbatim>\<open>cv2.merge([b, g, r, alpha])\<close>\<close>

definition cv2_split :: "image \<Rightarrow> plane \<times> plane \<times> plane" where
  "cv2_split img =
     (map (map (\<lambda>(b, g, r). b)) img, map (map (\<lambda>(b, g, r). g)) img, map (map (\<lambda>(b, g, r). r)) img)"

definition cv2_merge :: "plane \<Rightarrow> plane \<Rightarrow> plane \<Rightarrow> plane \<Rightarrow> rgba" where
  "cv2_merge b g r a =
     map (\<lambda>(rb, rg, rr, ra). zip rb (zip rg (zip rr ra))) (zip b (zip g (zip r a)))"

text \<open>Lines 38 to 48 of \<^verbatim>\<open>remove_background\<close>: from the image and the mask to the 4-channel buffer.\<close>

definition composite :: "image \<Rightarrow> plane \<Rightarrow> rgba" where
  "composite img msk =
     (let mask2 = mask2_of msk;
          img_foreground = times_mask img mask2;
          alpha = alpha_of mask2
      in case cv2_split img_foreground of (b, g, r) \<Rightarrow> cv2_merge b g r alpha)"

text \<open>
  The same lines over a store of arrays, so that what they read, what they allocate and
  what they overwrite can be stated.  An address is an index into the store.  Every call
  below is numpy's or OpenCV's and is given the effect it has there: the result is a new
  array at a fresh address, and no array that exists is written.  The temporaries of an
  expression, which no name keeps, are left out.  \<^verbatim>\<open>mask2[:, :, np.newaxis]\<close> allocates
  nothing: it is a view of the memory of \<^verbatim>\<open>mask2\<close>, the same address.  The result None
  stands for a call that raises (an array of the wrong kind, channels of different shapes
  in \<^verbatim>\<open>cv2.merge\<close>) and for a product of an image and a mask of different shapes, which
  this model does not cover: numpy stretches an axis of length 1 and raises otherwise.
\<close>

datatype ndarray = Plane plane | Image image | Rgba rgba

type_synonym store = "ndarray list"

definition lookup :: "store \<Rightarrow> nat \<Rightarrow> ndarray option" where
  "lookup h a = (if a < length h then Some (h ! a) else None)"

definition alloc :: "ndarray \<Rightarrow> store \<Rightarrow> nat \<times> store" where
  "alloc x h = (length h, h @ [x])"

text \<open>\<^verbatim>\<open>np.where((mask == cv2.GC_BGD) | (mask == cv2.GC_PR_BGD), 0, 1).astype('uint8')\<close>\<close>

definition np_where_bg :: "nat \<Rightarrow> store \<Rightarrow> (nat \<times> store) option" where
  "np_where_bg a h =
     (case lookup h a of Some (Plane m) \<Rightarrow> Some (alloc (Plane (mask2_of m)) h) | _ \<Rightarrow> None)"

definition newaxis_view :: "nat \<Rightarrow> nat" where
  "newaxis_view a = a"

text \<open>\<^verbatim>\<open>img * view\<close>\<close>

definition np_multiply :: "nat \<Rightarrow> nat \<Rightarrow> store \<Rightarrow> (nat \<times> store) option" where
  "np_multiply a b h =
     (case (lookup h a, lookup h b) of
        (Some (Image i), Some (Plane m)) \<Rightarrow>
          if same_dims i m then Some (alloc (Image (times_mask i m)) h) else None
      | _ \<Rightarrow> None)"

text \<open>\<^verbatim>\<open>(mask2 * 255).astype(np.uint8)\<close>\<close>

definition np_times_255 :: "nat \<Rightarrow> store \<Rightarrow> (nat \<times> store) option" where
  "np_times_255 a h =
     (case lookup h a of Some (Plane m) \<Rightarrow> Some (alloc (Plane (alpha_of m)) h) | _ \<Rightarrow> None)"

text \<open>\<^verbatim>\<open>cv2.split\<close>: three new planes.\<close>

definition cv2_split_op :: "nat \<Rightarrow> store \<Rightarrow> ((nat \<times> nat \<times> nat) \<times> store) option" where
  "cv2_split_op a h =
     (case lookup h a of
        Some (Image i) \<Rightarrow>
          (case cv2_split i of
             (pb, pg, pr) \<Rightarrow>
               (case alloc (Plane pb) h of
                  (b, h1) \<Rightarrow>
                    (case alloc (Plane pg) h1 of
                       (g, h2) \<Rightarrow>
                         (case alloc (Plane pr) h2 of (r, h3) \<Rightarrow> Some ((b, g, r), h3)))))
      | _ \<Rightarrow> None)"

text \<open>\<^verbatim>\<open>cv2.merge([b, g, r, alpha])\<close>\<close>

definition cv2_merge_op :: "nat \<Rightarrow> nat \<Rightarrow> nat \<Rightarrow> nat \<Rightarrow> store \<Rightarrow> (nat \<times> store) option" where
  "cv2_merge_op b g r a h =
     (case (lookup h b, lookup h g, lookup h r, lookup h a) of
        (Some (Plane pb), Some (Plane pg), Some (Plane pr), Some (Plane pa)) \<Rightarrow>
          if same_dims pb pg \<and> same_dims pb pr \<and> same_dims pb pa
          then Some (alloc (Rgba (cv2_merge pb pg pr pa)) h) else None
      | _ \<Rightarrow> None)"

text \<open>
  Lines 38 to 48 with \<^verbatim>\<open>img\<close> and \<^verbatim>\<open>mask\<close> at the addresses given: the address of
  \<^verbatim>\<open>rgba\<close> and the store afterwards.
\<close>

definition compositor :: "nat \<Rightarrow> nat \<Rightarrow> store \<Rightarrow> (nat \<times> store) option" where
  "compositor img msk h =
     (case np_where_bg msk h of
        None \<Rightarrow> None
      | Some (mask2, h1) \<Rightarrow>
          (case np_multiply img (newaxis_view mask2) h1 of
             None \<Rightarrow> None
           | Some (img_foreground, h2) \<Rightarrow>
               (case np_times_255 mask2 h2 of
                  None \<Rightarrow> None
                | Some (alpha, h3) \<Rightarrow>
                    (case cv2_split_op img_foreground h3 of
                       None \<Rightarrow> None
                     | Some ((b, g, r), h4) \<Rightarrow> cv2_merge_op b g r alpha h4))))"


section \<open>Collaborators and program state\<close>

text \<open>
  The program talks to OpenCV, to the file system, to the Windows registry and to the
  console.  None of these is code of the program: each is a field of the environment
  \<open>env\<close>, with the result type the program tests for.  What the program leaves behind
  is the state: the lines printed, the registry, and the image files written.
\<close>

definition bslash :: char where "bslash = CHR 0x5C"
definition apostrophe :: char where "apostrophe = CHR 0x27"
definition dquote :: char where "dquote = CHR 0x22"

datatype exn = Cv2_error string | FileNotFoundError string | PermissionError string

text \<open>\<^verbatim>\<open>f"{e}"\<close>: the message of an exception.\<close>

fun str_of_exn :: "exn \<Rightarrow> string" where
  "str_of_exn (Cv2_error m) = m"
| "str_of_exn (FileNotFoundError m) = m"
| "str_of_exn (PermissionError m) = m"

type_synonym registry = "(string \<times> (string \<times> string) list) list"
type_synonym filesystem = "string \<Rightarrow> rgba option"

record state =
  stdout :: "string list"
  registry :: registry
  files :: filesystem

text \<open>
  \<^item> \<open>path_exists\<close>: \<^verbatim>\<open>os.path.exists\<close>.
  \<^item> \<open>imread\<close>: \<^verbatim>\<open>cv2.imread\<close>.  It returns the array, or None for a file it cannot
    read or decode, or it raises (an image the decoder refuses, such as one above its
    pixel limit).
  \<^item> \<open>grabCut\<close>: \<^verbatim>\<open>cv2.grabCut(img, mask, rect, bgdModel, fgdModel, 5, cv2.GC_INIT_WITH_RECT)\<close>.
    The program ignores the value returned and reads the array \<^verbatim>\<open>mask\<close> it passed, so
    the call acts by writing the cells of that array: on success it gives the label it
    wrote at every row and column.  It may raise instead.  The two model arrays are
    zero-filled work arrays that the program never reads again; they are left out.
  \<^item> \<open>imwrite\<close>: \<^verbatim>\<open>cv2.imwrite\<close>, from the path, the buffer and the file system to the
    file system it leaves and the success flag it returns, or the exception it raises.
  \<^item> \<open>has_winreg\<close>: whether \<^verbatim>\<open>import winreg\<close> succeeds.
  \<^item> \<open>reg_denied\<close>: the registry keys the user may not create or delete.
  \<^item> \<open>sys_executable\<close>, \<open>script_path\<close>: \<^verbatim>\<open>sys.executable\<close> and
    \<^verbatim>\<open>os.path.abspath(__file__)\<close>; \<open>icon_path\<close>: the file
    \<^verbatim>\<open>background_remover.ico\<close> joined to the directory of the script.
  \<^item> \<open>nt_paths\<close>: whether \<^verbatim>\<open>os.path\<close> is \<^verbatim>\<open>ntpath\<close> (else \<^verbatim>\<open>posixpath\<close>).
  \<^item> \<open>help_text\<close>: what \<^verbatim>\<open>parser.print_help()\<close> prints.
\<close>

record env =
  path_exists :: "string \<Rightarrow> bool"
  imread :: "string \<Rightarrow> exn + image option"
  grabCut :: "image \<Rightarrow> plane \<Rightarrow> rect \<Rightarrow> int \<Rightarrow> exn + (nat \<Rightarrow> nat \<Rightarrow> u8)"
  imwrite :: "string \<Rightarrow> rgba \<Rightarrow> filesystem \<Rightarrow> (exn + bool) \<times> filesystem"
  has_winreg :: bool
  reg_denied :: "string \<Rightarrow> bool"
  sys_executable :: string
  script_path :: string
  icon_path :: string
  nt_paths :: bool
  help_text :: string

definition print_line :: "string \<Rightarrow> state \<Rightarrow> state" where
  "print_line line s = s\<lparr>stdout := stdout s @ [line]\<rparr>"

text \<open>The array \<^verbatim>\<open>mask\<close> after the library has written its cells: the shape is kept.\<close>

definition written_mask :: "plane \<Rightarrow> (nat \<Rightarrow> nat \<Rightarrow> u8) \<Rightarrow> plane" where
  "written_mask msk lab = map (\<lambda>i. map (\<lambda>j. lab i j) [0..<length (msk ! i)]) [0..<length msk]"

section \<open>remove\_background\<close>

text \<open>
  The result is \<open>Inr True\<close> or \<open>Inr False\<close> as the function returns, and \<open>Inl e\<close> when
  an exception \<open>e\<close> raised by one of the three library calls leaves the function: it has
  no handler.
\<close>

definition remove_background :: "env \<Rightarrow> string \<Rightarrow> string \<Rightarrow> state \<Rightarrow> (exn + bool) \<times> state" where
  "remove_background E input_path output_path s =
     (case imread E input_path of
        Inl e \<Rightarrow> (Inl e, s)
      | Inr None \<Rightarrow>
          (Inr False,
           print_line (''Error: Could not load image '' @ [apostrophe] @ input_path @ [apostrophe]) s)
      | Inr (Some img) \<Rightarrow>
          (let height = height_of img;
               width = width_of img;
               msk = np_zeros height width;
               rect = init_rect width height
           in case grabCut E img msk rect 5 of
                Inl e \<Rightarrow> (Inl e, s)
              | Inr lab \<Rightarrow>
                  (let rgba = composite img (written_mask msk lab)
                   in case imwrite E output_path rgba (files s) of
                        (Inl e, fs) \<Rightarrow> (Inl e, s\<lparr>files := fs\<rparr>)
                      | (Inr ok, fs) \<Rightarrow>
                          if ok then (Inr True, s\<lparr>files := fs\<rparr>)
                          else (Inr False,
                                print_line (''Error: Could not write image to '' @ [apostrophe]
                                            @ output_path @ [apostrophe]) (s\<lparr>files := fs\<rparr>)))))"

section \<open>The registry\<close>

text \<open>
  Modelled from the spec: the store behind \<^verbatim>\<open>winreg\<close>, which is not code of the
  program.  The spec asks for an explicit store with get, set and delete; here it is the
  list of the keys present, each with its named values.  \<^verbatim>\<open>CreateKey\<close> creates or opens
  (the program's own comment), \<^verbatim>\<open>SetValueEx\<close> sets one named value of an open key,
  \<^verbatim>\<open>DeleteKey\<close> raises for a key that is absent and cannot delete a key with subkeys.
\<close>

definition CreateKey :: "env \<Rightarrow> registry \<Rightarrow> string \<Rightarrow> exn + registry" where
  "CreateKey E r k =
     (if reg_denied E k then Inl (PermissionError k)
      else if k \<in> set (map fst r) then Inr r
      else Inr (r @ [(k, [])]))"

definition SetValueEx :: "registry \<Rightarrow> string \<Rightarrow> string \<Rightarrow> string \<Rightarrow> registry" where
  "SetValueEx r k name v =
     map (\<lambda>(k', vs). if k' = k then (k', AList.update name v vs) else (k', vs)) r"

definition has_subkey :: "registry \<Rightarrow> string \<Rightarrow> bool" where
  "has_subkey r k = list_ex (\<lambda>(k', vs). prefix (k @ [bslash]) k') r"

definition DeleteKey :: "env \<Rightarrow> registry \<Rightarrow> string \<Rightarrow> exn + registry" where
  "DeleteKey E r k =
     (if k \<notin> set (map fst r) then Inl (FileNotFoundError k)
      else if reg_denied E k \<or> has_subkey r k then Inl (PermissionError k)
      else Inr (filter (\<lambda>(k', vs). k' \<noteq> k) r))"

text \<open>
  Reading the store: the value of a name under a key, the entries a key has, and the key
  as \<^verbatim>\<open>CreateKey\<close> leaves it.
\<close>

definition reg_get :: "registry \<Rightarrow> string \<Rightarrow> string \<Rightarrow> string option" where
  "reg_get r k name = (case map_of r k of None \<Rightarrow> None | Some vs \<Rightarrow> map_of vs name)"

definition entries :: "registry \<Rightarrow> string \<Rightarrow> registry" where
  "entries r k = filter (\<lambda>(k', vs). k' = k) r"

definition opened :: "registry \<Rightarrow> string \<Rightarrow> registry" where
  "opened r k = (if k \<in> set (map fst r) then r else r @ [(k, [])])"

text \<open>\<^verbatim>\<open>str.replace(old, new)\<close>: every occurrence, from the left, without overlap.\<close>

fun str_replace :: "string \<Rightarrow> string \<Rightarrow> string \<Rightarrow> string" where
  "str_replace old new [] = (if old = [] then new else [])"
| "str_replace old new (c # cs) =
     (if old = [] then new @ concat (map (\<lambda>x. x # new) (c # cs))
      else if prefix old (c # cs) then new @ str_replace old new (drop (length old) (c # cs))
      else c # str_replace old new cs)"

definition extensions :: "string list" where
  "extensions = [''.jpg'', ''.jpeg'', ''.png'', ''.webp'']"

text \<open>\<^verbatim>\<open>rf"Software\Classes\SystemFileAssociations\{ext}\shell\RemoveBackground"\<close>\<close>

definition key_path :: "string \<Rightarrow> string" where
  "key_path ext =
     ''Software'' @ [bslash] @ ''Classes'' @ [bslash] @ ''SystemFileAssociations'' @ [bslash]
     @ ext @ [bslash] @ ''shell'' @ [bslash] @ ''RemoveBackground''"

definition command_key :: "string \<Rightarrow> string" where
  "command_key ext = key_path ext @ [bslash] @ ''command''"

text \<open>\<^verbatim>\<open>command = f'"{python_exe}" "{script_path}" "%1"'\<close>\<close>

definition command :: "env \<Rightarrow> string" where
  "command E =
     (let python_exe = str_replace ''python.exe'' ''pythonw.exe'' (sys_executable E)
      in [dquote] @ python_exe @ [dquote] @ '' '' @ [dquote] @ script_path E @ [dquote]
         @ '' '' @ [dquote] @ ''%1'' @ [dquote])"

text \<open>
  The association of one extension as \<^verbatim>\<open>register_context_menu\<close> writes it: one entry
  for the verb with its title and icon, one entry for its command.
\<close>

definition installed :: "env \<Rightarrow> registry \<Rightarrow> string \<Rightarrow> bool" where
  "installed E r ext =
     (length (entries r (key_path ext)) = 1
      \<and> length (entries r (command_key ext)) = 1
      \<and> reg_get r (key_path ext) [] = Some ''Remove Background''
      \<and> reg_get r (key_path ext) ''Icon'' = Some (icon_path E)
      \<and> reg_get r (command_key ext) [] = Some (command E))"

text \<open>
  The body of the loop of \<^verbatim>\<open>register_context_menu\<close>: what was written before an
  exception stays written; the handler prints and the loop goes on.
\<close>

definition register_ext :: "env \<Rightarrow> string \<Rightarrow> state \<Rightarrow> state" where
  "register_ext E ext s =
     (case CreateKey E (registry s) (key_path ext) of
        Inl e \<Rightarrow> print_line (''Error registering for '' @ ext @ '': '' @ str_of_exn e) s
      | Inr r1 \<Rightarrow>
          (let r2 = SetValueEx r1 (key_path ext) [] ''Remove Background'';
               r3 = SetValueEx r2 (key_path ext) ''Icon'' (icon_path E)
           in case CreateKey E r3 (command_key ext) of
                Inl e \<Rightarrow>
                  print_line (''Error registering for '' @ ext @ '': '' @ str_of_exn e)
                    (s\<lparr>registry := r3\<rparr>)
              | Inr r4 \<Rightarrow>
                  print_line (''Registered context menu for '' @ ext @ '' files with icon.'')
                    (s\<lparr>registry := SetValueEx r4 (command_key ext) [] (command E)\<rparr>)))"

definition register_context_menu :: "env \<Rightarrow> state \<Rightarrow> state" where
  "register_context_menu E s =
     (if \<not> has_winreg E then print_line ''winreg module is only available on Windows.'' s
      else foldl (\<lambda>s' ext. register_ext E ext s') s extensions)"

definition unregister_ext :: "env \<Rightarrow> string \<Rightarrow> state \<Rightarrow> state" where
  "unregister_ext E ext s =
     (case DeleteKey E (registry s) (command_key ext) of
        Inl e \<Rightarrow> print_line (''Error unregistering for '' @ ext @ '': '' @ str_of_exn e) s
      | Inr r1 \<Rightarrow>
          (case DeleteKey E r1 (key_path ext) of
             Inl e \<Rightarrow>
               print_line (''Error unregistering for '' @ ext @ '': '' @ str_of_exn e)
                 (s\<lparr>registry := r1\<rparr>)
           | Inr r2 \<Rightarrow>
               print_line (''Unregistered context menu for '' @ ext @ '' files.'')
                 (s\<lparr>registry := r2\<rparr>)))"

definition unregister_context_menu :: "env \<Rightarrow> state \<Rightarrow> state" where
  "unregister_context_menu E s =
     (if \<not> has_winreg E then print_line ''winreg module is only available on Windows.'' s
      else foldl (\<lambda>s' ext. unregister_ext E ext s') s extensions)"

section \<open>The command line\<close>

text \<open>
  \<^verbatim>\<open>os.path.splitext\<close>, as the path module of Python 3 defines it: the extension
  starts at the last dot of the last path component, unless only dots precede it there.
  \<^verbatim>\<open>str.rfind\<close> gives the last index of a character, or -1.
\<close>

definition rfind :: "string \<Rightarrow> char \<Rightarrow> int" where
  "rfind p c =
     (if c \<in> set p then int (length p) - 1 - int (length (takeWhile (\<lambda>x. x \<noteq> c) (rev p)))
      else - 1)"

function skip_dots :: "string \<Rightarrow> int \<Rightarrow> int \<Rightarrow> bool" where
  "skip_dots p filenameIndex dotIndex =
     (if filenameIndex < dotIndex
      then (if take 1 (drop (nat filenameIndex) p) \<noteq> ''.'' then True
            else skip_dots p (filenameIndex + 1) dotIndex)
      else False)"
  by pat_completeness auto
termination
  by (relation "measure (\<lambda>(p, filenameIndex, dotIndex). nat (dotIndex - filenameIndex))") auto

definition splitext_with :: "char \<Rightarrow> char option \<Rightarrow> string \<Rightarrow> string \<times> string" where
  "splitext_with sep altsep p =
     (let sepIndex = (case altsep of None \<Rightarrow> rfind p sep
                      | Some a \<Rightarrow> max (rfind p sep) (rfind p a));
          dotIndex = rfind p (CHR ''.'')
      in if dotIndex > sepIndex \<and> skip_dots p (sepIndex + 1) dotIndex
         then (take (nat dotIndex) p, drop (nat dotIndex) p)
         else (p, []))"

definition splitext :: "env \<Rightarrow> string \<Rightarrow> string \<times> string" where
  "splitext E p =
     (if nt_paths E then splitext_with bslash (Some (CHR ''/'')) p
      else splitext_with (CHR ''/'') None p)"

text \<open>The characters that separate the components of a path.\<close>

definition is_sep :: "env \<Rightarrow> char \<Rightarrow> bool" where
  "is_sep E c = (c = CHR ''/'' \<or> (nt_paths E \<and> c = bslash))"

text \<open>The namespace \<^verbatim>\<open>parser.parse_args()\<close> returns.\<close>

record args =
  register :: bool
  unregister :: bool
  "file" :: "string option"

text \<open>
  \<^verbatim>\<open>main\<close>.  The first component is the exception that leaves the process, if any.
  \<^verbatim>\<open>elif args.file:\<close> is false for None and for the empty string.
\<close>

definition main :: "env \<Rightarrow> args \<Rightarrow> state \<Rightarrow> exn option \<times> state" where
  "main E a s =
     (if register a then (None, register_context_menu E s)
      else if unregister a then (None, unregister_context_menu E s)
      else case file a of
        None \<Rightarrow> (None, print_line (help_text E) s)
      | Some input_file \<Rightarrow>
          if input_file = [] then (None, print_line (help_text E) s)
          else if \<not> path_exists E input_file
          then (None, print_line (''Error: File '' @ [apostrophe] @ input_file @ [apostrophe]
                                  @ '' does not exist.'') s)
          else
            (let output_file = fst (splitext E input_file) @ ''_nobg.png'';
                 s1 = print_line (''Processing '' @ [apostrophe] @ input_file @ [apostrophe] @ '' -> ''
                                  @ [apostrophe] @ output_file @ [apostrophe]) s
             in case remove_background E input_file output_file s1 of
                  (Inl e, s2) \<Rightarrow> (Some e, s2)
                | (Inr ok, s2) \<Rightarrow>
                    if ok then (None, print_line ''Background removal complete.'' s2)
                    else (None, print_line ''Background removal failed.'' s2)))"

section \<open>Example runs\<close>

text \<open>
  Concrete inputs for the closed theorems below: a 5 by 5 image, a labelling that keeps
  everything but the first row and column, and environments in which the library accepts
  the call, in which the segmentation raises, in which the encoder cannot write or stops
  after the first row, and in which the decoder raises.
\<close>

definition example_image :: image where
  "example_image =
     [[(200, 100, 50), (200, 100, 50), (200, 100, 50), (200, 100, 50), (200, 100, 50)],
      [(200, 100, 50), (10, 20, 30), (10, 20, 30), (10, 20, 30), (200, 100, 50)],
      [(200, 100, 50), (10, 20, 30), (10, 20, 30), (10, 20, 30), (200, 100, 50)],
      [(200, 100, 50), (10, 20, 30), (10, 20, 30), (10, 20, 30), (200, 100, 50)],
      [(200, 100, 50), (200, 100, 50), (200, 100, 50), (200, 100, 50), (200, 100, 50)]]"

definition example_labels :: "nat \<Rightarrow> nat \<Rightarrow> u8" where
  "example_labels i j = (if 1 \<le> i \<and> 1 \<le> j then GC_PR_FGD else GC_BGD)"

definition empty_state :: state where
  "empty_state = \<lparr>stdout = [], registry = [], files = (\<lambda>p. None)\<rparr>"

definition stale_state :: state where
  "stale_state = \<lparr>stdout = [], registry = [], files = [''cat_nobg.png'' \<mapsto> [[(1, 2, 3, 4)]]]\<rparr>"

definition example_env :: env where
  "example_env =
     \<lparr>path_exists = (\<lambda>p. p = ''cat.jpg'' \<or> p = ''notes.txt''),
      imread = (\<lambda>p. Inr (if p = ''cat.jpg'' then Some example_image else None)),
      grabCut = (\<lambda>img msk rect k. Inr example_labels),
      imwrite = (\<lambda>p b fs. (Inr True, fs(p \<mapsto> b))),
      has_winreg = True,
      reg_denied = (\<lambda>k. False),
      sys_executable = ''C:/Python/python.exe'',
      script_path = ''C:/tools/backgroundremover.pyw'',
      icon_path = ''C:/tools/background_remover.ico'',
      nt_paths = True,
      help_text = ''usage: backgroundremover.pyw [-h] [--register] [--unregister] [file]''\<rparr>"

definition rejecting_env :: env where
  "rejecting_env = example_env\<lparr>grabCut := (\<lambda>img msk rect k. Inl (Cv2_error ''grabCut failed''))\<rparr>"



definition truncating_env :: env where
  "truncating_env = example_env\<lparr>imwrite := (\<lambda>p b fs. (Inr False, fs(p \<mapsto> take 1 b)))\<rparr>"

definition example_store :: store where
  "example_store = [Image [[(10, 20, 30), (40, 50, 60)]], Plane [[GC_PR_FGD, GC_PR_BGD]]]"

definition file_args :: "string \<Rightarrow> args" where
  "file_args f = \<lparr>register = False, unregister = False, file = Some f\<rparr>"

definition cat_args :: args where
  "cat_args = file_args ''cat.jpg''"

section \<open>Properties of the compositor\<close>

lemma same_dims_length: "same_dims img msk \<Longrightarrow> length msk = length img"
  by (simp add: same_dims_def list_all2_lengthD)

lemma same_dims_row:
  "same_dims img msk \<Longrightarrow> i < length img \<Longrightarrow> length (msk ! i) = length (img ! i)"
  unfolding same_dims_def by (drule list_all2_nthD [where p = i]) simp_all

lemma composite_length:
  "same_dims img msk \<Longrightarrow> length (composite img msk) = length img"
  by (simp add: composite_def cv2_split_def cv2_merge_def times_mask_def alpha_of_def
      mask2_of_def same_dims_length Let_def)

lemma composite_row:
  assumes "same_dims img msk" and "i < length img"
  shows "composite img msk ! i =
           map2 (\<lambda>p m. case times_cell p (mask2_cell m) of (b, g, r) \<Rightarrow> (b, g, r, mask2_cell m * 255))
             (img ! i) (msk ! i)"
proof -
  have len: "length msk = length img" and row: "length (msk ! i) = length (img ! i)"
    using assms by (simp_all add: same_dims_length same_dims_row)
  have "composite img msk ! i =
          zip (map (\<lambda>(b, g, r). b) (map2 times_cell (img ! i) (map mask2_cell (msk ! i))))
           (zip (map (\<lambda>(b, g, r). g) (map2 times_cell (img ! i) (map mask2_cell (msk ! i))))
            (zip (map (\<lambda>(b, g, r). r) (map2 times_cell (img ! i) (map mask2_cell (msk ! i))))
              (map (\<lambda>m. m * 255) (map mask2_cell (msk ! i)))))"
    using assms(2) len
    by (simp add: composite_def cv2_split_def cv2_merge_def times_mask_def alpha_of_def
        mask2_of_def Let_def)
  also have "\<dots> = map2 (\<lambda>p m. case times_cell p (mask2_cell m) of (b, g, r) \<Rightarrow> (b, g, r, mask2_cell m * 255))
             (img ! i) (msk ! i)"
    using row by (intro nth_equalityI) (simp_all add: split_beta)
  finally show ?thesis .
qed

lemma composite_pixel:
  assumes "same_dims img msk" and "i < length img" and "j < length (img ! i)"
  shows "composite img msk ! i ! j =
           (case times_cell (img ! i ! j) (mask2_cell (msk ! i ! j)) of
              (b, g, r) \<Rightarrow> (b, g, r, mask2_cell (msk ! i ! j) * 255))"
  using assms by (simp add: composite_row same_dims_row)

lemma same_dims_maps: "same_dims (map (map f) xs) (map (map g) xs)"
  by (simp add: same_dims_def list_all2_map1 list_all2_map2 list_all2_same)

lemma same_dims_mask2_of: "same_dims img msk \<Longrightarrow> same_dims img (mask2_of msk)"
  by (simp add: same_dims_def mask2_of_def list_all2_map2)

lemma same_dims_channel_alpha:
  "same_dims img m2 \<Longrightarrow> same_dims (map (map f) (times_mask img m2)) (alpha_of m2)"
  by (auto simp: same_dims_def times_mask_def alpha_of_def list_all2_conv_all_nth)

section \<open>The rectangle on small and on large images\<close>

lemma init_rect_positive: "1 \<le> W \<Longrightarrow> 1 \<le> H \<Longrightarrow> rect_positive (init_rect W H)"
  unfolding init_rect_def int_times_005_def int_times_01_def rect_positive_def by simp linarith

lemma init_rect_large: "20 \<le> W \<Longrightarrow> 20 \<le> H \<Longrightarrow> rect_strictly_within W H (init_rect W H)"
  unfolding init_rect_def int_times_005_def int_times_01_def rect_strictly_within_def
  by simp linarith

lemma init_rect_exceeds: "1 \<le> W \<Longrightarrow> W < 10 \<Longrightarrow> \<not> rect_within W H (init_rect W H)"
  by (simp add: init_rect_def int_times_005_def int_times_01_def rect_within_def)

lemma example_image_shape: "height_of example_image = 5 \<and> width_of example_image = 5"
  by (simp add: example_image_def height_of_def width_of_def)

section \<open>The mask keeps the shape of the image\<close>


section \<open>What printing and the registry functions leave alone\<close>

lemma files_print_line: "files (print_line l s) = files s"
  by (simp add: print_line_def)


lemma files_register_ext: "files (register_ext E ext s) = files s"
  by (simp add: register_ext_def Let_def files_print_line split: sum.splits)

lemma files_unregister_ext: "files (unregister_ext E ext s) = files s"
  by (simp add: unregister_ext_def files_print_line split: sum.splits)

lemma files_register_context_menu: "files (register_context_menu E s) = files s"
  by (simp add: register_context_menu_def extensions_def files_print_line files_register_ext)

lemma files_unregister_context_menu: "files (unregister_context_menu E s) = files s"
  by (simp add: unregister_context_menu_def extensions_def files_print_line files_unregister_ext)

text \<open>An exception of the library has no handler on its way out of \<^verbatim>\<open>main\<close>.\<close>

lemma library_error_leaves_main:
  assumes "\<not> register a" and "\<not> unregister a" and "file a = Some f" and "f \<noteq> []"
    and "path_exists E f" and "imread E f = Inr (Some img)"
    and "grabCut E img (np_zeros (height_of img) (width_of img))
           (init_rect (width_of img) (height_of img)) 5 = Inl e"
  shows "fst (main E a s) = Some e"
  using assms by (simp add: main_def remove_background_def Let_def)

section \<open>Splitting off the extension\<close>

lemma rfind_append_notin: "c \<notin> set ys \<Longrightarrow> rfind (xs @ ys) c = rfind xs c"
proof -
  assume n: "c \<notin> set ys"
  then have "takeWhile (\<lambda>x. x \<noteq> c) (rev ys @ rev xs) = rev ys @ takeWhile (\<lambda>x. x \<noteq> c) (rev xs)"
    by (intro takeWhile_append2) auto
  with n show ?thesis by (simp add: rfind_def)
qed

lemma rfind_snoc: "rfind (xs @ [c]) c = int (length xs)"
  by (simp add: rfind_def)

lemma rfind_ge: "- 1 \<le> rfind xs c"
proof (cases "c \<in> set xs")
  case True
  have "length (takeWhile (\<lambda>x. x \<noteq> c) (rev xs)) \<le> length (rev xs)"
    by (rule length_takeWhile_le)
  moreover have "takeWhile (\<lambda>x. x \<noteq> c) (rev xs) \<noteq> rev xs"
    using True by (auto simp: takeWhile_eq_all_conv)
  ultimately have "length (takeWhile (\<lambda>x. x \<noteq> c) (rev xs)) < length xs"
    by (metis length_rev order_le_imp_less_or_eq takeWhile_eq_take take_all_iff linorder_not_le)
  with True show ?thesis by (simp add: rfind_def)
qed (simp add: rfind_def)

lemma rfind_lt: "rfind xs c < int (length xs)"
  by (simp add: rfind_def)

lemma skip_dots_iff:
  "0 \<le> a \<Longrightarrow> skip_dots p a b \<longleftrightarrow> (\<exists>i. a \<le> i \<and> i < b \<and> take 1 (drop (nat i) p) \<noteq> ''.'')"
proof (induction p a b rule: skip_dots.induct)
  case (1 p a b)
  show ?case
  proof (cases "a < b")
    case False
    then show ?thesis by (subst skip_dots.simps) auto
  next
    case True
    show ?thesis
    proof (cases "take 1 (drop (nat a) p) \<noteq> ''.''")
      case t: True
      with True show ?thesis by (subst skip_dots.simps) auto
    next
      case f: False
      have "skip_dots p a b = skip_dots p (a + 1) b"
        using True f by (subst skip_dots.simps) simp
      also have "\<dots> \<longleftrightarrow> (\<exists>i. a + 1 \<le> i \<and> i < b \<and> take 1 (drop (nat i) p) \<noteq> ''.'')"
        using "1.IH" [OF True] f "1.prems" by simp
      also have "\<dots> \<longleftrightarrow> (\<exists>i. a \<le> i \<and> i < b \<and> take 1 (drop (nat i) p) \<noteq> ''.'')"
      proof
        assume "\<exists>i. a + 1 \<le> i \<and> i < b \<and> take 1 (drop (nat i) p) \<noteq> ''.''"
        then obtain i where "a + 1 \<le> i" "i < b" "take 1 (drop (nat i) p) \<noteq> ''.''" by blast
        then have "a \<le> i \<and> i < b \<and> take 1 (drop (nat i) p) \<noteq> ''.''" by simp
        then show "\<exists>i. a \<le> i \<and> i < b \<and> take 1 (drop (nat i) p) \<noteq> ''.''" ..
      next
        assume "\<exists>i. a \<le> i \<and> i < b \<and> take 1 (drop (nat i) p) \<noteq> ''.''"
        then obtain i where i: "a \<le> i" "i < b" "take 1 (drop (nat i) p) \<noteq> ''.''" by blast
        with f have "i \<noteq> a" by auto
        with i show "\<exists>i. a + 1 \<le> i \<and> i < b \<and> take 1 (drop (nat i) p) \<noteq> ''.''"
          by (intro exI [of _ i]) simp
      qed
      finally show ?thesis .
    qed
  qed
qed

lemma splitext_with_name_ext:
  assumes sx: "sep \<notin> set x" and se: "sep \<notin> set ext" and sd: "sep \<noteq> CHR ''.''"
    and alt: "\<And>a. altsep = Some a \<Longrightarrow> a \<notin> set x \<and> a \<notin> set ext \<and> a \<noteq> CHR ''.''"
    and de: "CHR ''.'' \<notin> set ext" and nd: "\<exists>c\<in>set x. c \<noteq> CHR ''.''"
  shows "splitext_with sep altsep (d @ x @ ''.'' @ ext) = (d @ x, ''.'' @ ext)"
proof -
  let ?p = "d @ x @ ''.'' @ ext"
  have dot: "rfind ?p (CHR ''.'') = int (length (d @ x))"
  proof -
    have "rfind (((d @ x) @ ''.'') @ ext) (CHR ''.'') = rfind ((d @ x) @ ''.'') (CHR ''.'')"
      using de by (rule rfind_append_notin)
    then show ?thesis using rfind_snoc [of "d @ x" "CHR ''.''"] by simp
  qed
  have sepc: "rfind ?p c = rfind d c" if "c \<notin> set x" "c \<notin> set ext" "c \<noteq> CHR ''.''" for c
  proof -
    have "c \<notin> set (x @ ''.'' @ ext)" using that by simp
    then show ?thesis by (rule rfind_append_notin)
  qed
  define sepIndex where
    "sepIndex = (case altsep of None \<Rightarrow> rfind ?p sep | Some a \<Rightarrow> max (rfind ?p sep) (rfind ?p a))"
  have s_lt: "sepIndex < int (length d)" and s_ge: "- 1 \<le> sepIndex"
  proof -
    have "sepIndex < int (length d) \<and> - 1 \<le> sepIndex"
    proof (cases altsep)
      case None
      then show ?thesis
        using sepc [OF sx se sd] rfind_lt [of d sep] rfind_ge [of d sep]
        by (simp add: sepIndex_def)
    next
      case (Some a)
      from alt [OF Some] have "rfind ?p a = rfind d a" by (intro sepc) simp_all
      then show ?thesis
        using Some sepc [OF sx se sd] rfind_lt [of d sep] rfind_ge [of d sep]
          rfind_lt [of d a] rfind_ge [of d a]
        by (simp add: sepIndex_def)
    qed
    then show "sepIndex < int (length d)" and "- 1 \<le> sepIndex" by simp_all
  qed
  from nd obtain k where k: "k < length x" "x ! k \<noteq> CHR ''.''"
    by (auto simp: in_set_conv_nth)
  have tk: "take 1 (drop (length d + k) ?p) = [x ! k]"
    using k(1) by (simp add: take_Suc_conv_app_nth drop_append nth_append take_Suc)
  have "take 1 (drop (nat (int (length d + k))) ?p) \<noteq> ''.''"
    unfolding nat_int tk using k(2) by simp
  moreover have "sepIndex + 1 \<le> int (length d + k)" "int (length d + k) < int (length (d @ x))"
    using s_lt k(1) by simp_all
  ultimately have "\<exists>i. sepIndex + 1 \<le> i \<and> i < int (length (d @ x)) \<and> take 1 (drop (nat i) ?p) \<noteq> ''.''"
    by blast
  then have skip: "skip_dots ?p (sepIndex + 1) (int (length (d @ x)))"
    using s_ge by (subst skip_dots_iff) simp_all
  have gt: "int (length (d @ x)) > sepIndex" using s_lt by simp
  show ?thesis
    unfolding splitext_with_def Let_def sepIndex_def [symmetric] dot
    using skip gt by simp
qed

lemma splitext_name_ext:
  assumes "\<forall>c\<in>set (x @ ext). \<not> is_sep E c" and "CHR ''.'' \<notin> set ext"
    and "\<exists>c\<in>set x. c \<noteq> CHR ''.''"
  shows "splitext E (d @ x @ ''.'' @ ext) = (d @ x, ''.'' @ ext)"
proof (cases "nt_paths E")
  case True
  have "splitext_with bslash (Some (CHR ''/'')) (d @ x @ ''.'' @ ext) = (d @ x, ''.'' @ ext)"
    using assms True by (intro splitext_with_name_ext) (auto simp: is_sep_def bslash_def)
  with True show ?thesis by (simp add: splitext_def)
next
  case False
  have "splitext_with (CHR ''/'') None (d @ x @ ''.'' @ ext) = (d @ x, ''.'' @ ext)"
    using assms by (intro splitext_with_name_ext) (auto simp: is_sep_def)
  with False show ?thesis by (simp add: splitext_def)
qed

section \<open>The registry under registration\<close>

lemma keys_SetValueEx: "map fst (SetValueEx r k n v) = map fst r"
  by (induction r) (auto simp: SetValueEx_def)

lemma map_of_SetValueEx:
  "map_of (SetValueEx r k n v) k' =
     (if k' = k then map_option (AList.update n v) (map_of r k) else map_of r k')"
  by (induction r) (auto simp: SetValueEx_def)

lemma reg_get_SetValueEx:
  "k \<in> set (map fst r) \<Longrightarrow>
   reg_get (SetValueEx r k n v) k' n' = (if k' = k \<and> n' = n then Some v else reg_get r k' n')"
proof -
  assume "k \<in> set (map fst r)"
  then obtain vs where "map_of r k = Some vs"
    by (metis domIff dom_map_of_conv_image_fst not_None_eq set_map)
  then show ?thesis
    by (auto simp: reg_get_def map_of_SetValueEx update_conv')
qed

lemma entries_length_one:
  "distinct (map fst r) \<Longrightarrow> k \<in> set (map fst r) \<Longrightarrow> length (entries r k) = 1"
  by (induction r) (auto simp: entries_def filter_empty_conv image_iff)

lemma entries_nonempty_key: "length (entries r k) = 1 \<Longrightarrow> k \<in> set (map fst r)"
proof -
  assume "length (entries r k) = 1"
  then have "entries r k \<noteq> []" by auto
  then obtain e where "e \<in> set (entries r k)" by (cases "entries r k") auto
  then show ?thesis by (force simp: entries_def)
qed

lemma CreateKey_opened: "\<not> reg_denied E k \<Longrightarrow> CreateKey E r k = Inr (opened r k)"
  by (simp add: CreateKey_def opened_def)

lemma keys_opened: "k \<in> set (map fst (opened r k))"
  by (simp add: opened_def)

lemma keys_opened_mono: "k' \<in> set (map fst r) \<Longrightarrow> k' \<in> set (map fst (opened r k))"
  by (simp add: opened_def)

lemma distinct_opened: "distinct (map fst r) \<Longrightarrow> distinct (map fst (opened r k))"
  by (simp add: opened_def)

lemma reg_get_opened: "reg_get (opened r k) k' n' = reg_get r k' n'"
proof (cases "k \<in> set (map fst r)")
  case False
  then have "map_of r k = None" by (simp add: map_of_eq_None_iff)
  then show ?thesis
    using False by (auto simp: opened_def reg_get_def map_add_def split: option.splits)
qed (simp add: opened_def)

lemma registry_register_ext:
  assumes "\<not> reg_denied E (key_path ext)" and "\<not> reg_denied E (command_key ext)"
  shows "registry (register_ext E ext s) =
           SetValueEx
             (opened
               (SetValueEx
                 (SetValueEx (opened (registry s) (key_path ext)) (key_path ext) [] ''Remove Background'')
                 (key_path ext) ''Icon'' (icon_path E))
               (command_key ext))
             (command_key ext) [] (command E)"
  using assms by (simp add: register_ext_def CreateKey_opened Let_def print_line_def)

lemma command_key_neq: "command_key ext \<noteq> key_path ext"
  by (simp add: command_key_def)

lemma register_ext_effect:
  assumes nd: "\<not> reg_denied E (key_path ext)" "\<not> reg_denied E (command_key ext)"
    and d: "distinct (map fst (registry s))"
  shows "distinct (map fst (registry (register_ext E ext s)))"
    and "key_path ext \<in> set (map fst (registry (register_ext E ext s)))"
    and "command_key ext \<in> set (map fst (registry (register_ext E ext s)))"
    and "k \<in> set (map fst (registry s)) \<Longrightarrow> k \<in> set (map fst (registry (register_ext E ext s)))"
    and "reg_get (registry (register_ext E ext s)) k n =
           (if k = command_key ext \<and> n = [] then Some (command E)
            else if k = key_path ext \<and> n = ''Icon'' then Some (icon_path E)
            else if k = key_path ext \<and> n = [] then Some ''Remove Background''
            else reg_get (registry s) k n)"
proof -
  let ?r1 = "opened (registry s) (key_path ext)"
  let ?r2 = "SetValueEx ?r1 (key_path ext) [] ''Remove Background''"
  let ?r3 = "SetValueEx ?r2 (key_path ext) ''Icon'' (icon_path E)"
  let ?r4 = "opened ?r3 (command_key ext)"
  let ?r5 = "SetValueEx ?r4 (command_key ext) [] (command E)"
  have r: "registry (register_ext E ext s) = ?r5"
    using nd by (rule registry_register_ext)
  have k1: "key_path ext \<in> set (map fst ?r1)" by (rule keys_opened)
  have k2: "key_path ext \<in> set (map fst ?r2)" using k1 by (simp only: keys_SetValueEx)
  have k3: "key_path ext \<in> set (map fst ?r3)" using k2 by (simp only: keys_SetValueEx)
  have k4: "command_key ext \<in> set (map fst ?r4)" by (rule keys_opened)
  show "distinct (map fst (registry (register_ext E ext s)))"
    unfolding r keys_SetValueEx
    by (intro distinct_opened, unfold keys_SetValueEx, intro distinct_opened d)
  show "key_path ext \<in> set (map fst (registry (register_ext E ext s)))"
    unfolding r keys_SetValueEx using k3 by (rule keys_opened_mono)
  show "command_key ext \<in> set (map fst (registry (register_ext E ext s)))"
    unfolding r keys_SetValueEx by (rule k4)
  show "k \<in> set (map fst (registry (register_ext E ext s)))" if "k \<in> set (map fst (registry s))"
    unfolding r keys_SetValueEx
    by (intro keys_opened_mono, unfold keys_SetValueEx, intro keys_opened_mono that)
  show "reg_get (registry (register_ext E ext s)) k n =
           (if k = command_key ext \<and> n = [] then Some (command E)
            else if k = key_path ext \<and> n = ''Icon'' then Some (icon_path E)
            else if k = key_path ext \<and> n = [] then Some ''Remove Background''
            else reg_get (registry s) k n)"
    unfolding r
    by (simp add: reg_get_SetValueEx [OF k4] reg_get_opened reg_get_SetValueEx [OF k2]
        reg_get_SetValueEx [OF k1] command_key_neq)
qed

lemma key_path_neq_command_key:
  "ext \<in> set extensions \<Longrightarrow> ext' \<in> set extensions \<Longrightarrow> key_path ext' \<noteq> command_key ext"
  by (auto simp: extensions_def key_path_def command_key_def)

lemma installed_register_ext_same:
  assumes "\<not> reg_denied E (key_path ext)" and "\<not> reg_denied E (command_key ext)"
    and "distinct (map fst (registry s))"
  shows "installed E (registry (register_ext E ext s)) ext"
  unfolding installed_def
  using register_ext_effect(1-3) [OF assms]
  by (simp add: entries_length_one register_ext_effect(5) [OF assms] command_key_neq
      command_key_neq [symmetric])

lemma installed_register_ext_other:
  assumes nd: "\<not> reg_denied E (key_path ext)" "\<not> reg_denied E (command_key ext)"
    and d: "distinct (map fst (registry s))"
    and e: "ext \<in> set extensions" "ext' \<in> set extensions"
    and i: "installed E (registry s) ext'"
  shows "installed E (registry (register_ext E ext s)) ext'"
proof -
  have k: "key_path ext' \<in> set (map fst (registry s))" "command_key ext' \<in> set (map fst (registry s))"
    using i entries_nonempty_key unfolding installed_def by blast+
  have n1: "key_path ext' \<noteq> command_key ext" and n2: "command_key ext' \<noteq> key_path ext"
    using e key_path_neq_command_key by (blast, metis)
  show ?thesis
    unfolding installed_def
    using i k register_ext_effect(1) [OF nd d] register_ext_effect(4) [OF nd d] n1 n2
    by (simp add: entries_length_one register_ext_effect(5) [OF nd d] installed_def)
qed

lemma register_loop:
  assumes nd: "\<forall>ext\<in>set extensions. \<not> reg_denied E (key_path ext) \<and> \<not> reg_denied E (command_key ext)"
  shows "set xs \<subseteq> set extensions \<Longrightarrow> distinct (map fst (registry s)) \<Longrightarrow>
         distinct (map fst (registry (foldl (\<lambda>s' ext. register_ext E ext s') s xs)))
         \<and> (\<forall>ext\<in>set extensions. installed E (registry s) ext \<or> ext \<in> set xs \<longrightarrow>
               installed E (registry (foldl (\<lambda>s' ext. register_ext E ext s') s xs)) ext)"
proof (induction xs arbitrary: s)
  case Nil
  then show ?case by simp
next
  case (Cons x xs)
  have x: "x \<in> set extensions" and xs: "set xs \<subseteq> set extensions" using Cons.prems(1) by auto
  have ndx: "\<not> reg_denied E (key_path x)" "\<not> reg_denied E (command_key x)" using nd x by auto
  let ?s = "register_ext E x s"
  have d': "distinct (map fst (registry ?s))"
    using register_ext_effect(1) [OF ndx Cons.prems(2)] .
  have step: "installed E (registry ?s) ext"
    if "ext \<in> set extensions" "installed E (registry s) ext \<or> ext = x" for ext
    using that installed_register_ext_same [OF ndx Cons.prems(2)]
      installed_register_ext_other [OF ndx Cons.prems(2) x]
    by blast
  from Cons.IH [OF xs d'] step show ?case by auto
qed

lemma SetValueEx_triv:
  "distinct (map fst r) \<Longrightarrow> reg_get r k n = Some v \<Longrightarrow> SetValueEx r k n v = r"
proof (induction r)
  case Nil
  then show ?case by (simp add: SetValueEx_def)
next
  case (Cons e r)
  obtain k' vs where e: "e = (k', vs)" by (cases e)
  show ?case
  proof (cases "k' = k")
    case True
    have "k \<notin> set (map fst r)" using Cons.prems(1) e True by simp
    then have "map (\<lambda>(k', vs). if k' = k then (k', AList.update n v vs) else (k', vs)) r = r"
      by (intro map_idI) (auto simp: image_iff)
    moreover have "AList.update n v vs = vs"
      using Cons.prems(2) e True by (simp add: reg_get_def update_triv)
    ultimately show ?thesis using e True by (simp add: SetValueEx_def)
  next
    case False
    then have "reg_get r k n = Some v" using Cons.prems(2) e by (simp add: reg_get_def)
    with Cons.IH Cons.prems(1) have "SetValueEx r k n v = r" by simp
    then show ?thesis using e False by (simp add: SetValueEx_def)
  qed
qed

lemma register_ext_installed_noop:
  assumes nd: "\<not> reg_denied E (key_path ext)" "\<not> reg_denied E (command_key ext)"
    and d: "distinct (map fst (registry s))" and i: "installed E (registry s) ext"
  shows "registry (register_ext E ext s) = registry s"
proof -
  have k: "key_path ext \<in> set (map fst (registry s))" "command_key ext \<in> set (map fst (registry s))"
    using i entries_nonempty_key unfolding installed_def by blast+
  have g: "reg_get (registry s) (key_path ext) [] = Some ''Remove Background''"
    "reg_get (registry s) (key_path ext) ''Icon'' = Some (icon_path E)"
    "reg_get (registry s) (command_key ext) [] = Some (command E)"
    using i by (simp_all add: installed_def)
  show ?thesis
    unfolding registry_register_ext [OF nd]
    using k d g by (simp add: opened_def SetValueEx_triv)
qed

lemma register_loop_noop:
  assumes nd: "\<forall>ext\<in>set extensions. \<not> reg_denied E (key_path ext) \<and> \<not> reg_denied E (command_key ext)"
  shows "set xs \<subseteq> set extensions \<Longrightarrow> distinct (map fst (registry s)) \<Longrightarrow>
         \<forall>ext\<in>set xs. installed E (registry s) ext \<Longrightarrow>
         registry (foldl (\<lambda>s' ext. register_ext E ext s') s xs) = registry s"
proof (induction xs arbitrary: s)
  case Nil
  then show ?case by simp
next
  case (Cons x xs)
  have x: "x \<in> set extensions" using Cons.prems(1) by simp
  have ndx: "\<not> reg_denied E (key_path x)" "\<not> reg_denied E (command_key x)" using nd x by auto
  have eq: "registry (register_ext E x s) = registry s"
    using register_ext_installed_noop [OF ndx Cons.prems(2)] Cons.prems(3) by simp
  have "registry (foldl (\<lambda>s' ext. register_ext E ext s') (register_ext E x s) xs)
          = registry (register_ext E x s)"
    using Cons.prems by (intro Cons.IH) (simp_all add: eq)
  then show ?case by (simp add: eq)
qed

lemma unregister_ext_absent:
  "command_key ext \<notin> set (map fst (registry s)) \<Longrightarrow>
   unregister_ext E ext s =
     print_line (''Error unregistering for '' @ ext @ '': '' @ command_key ext) s"
  by (simp add: unregister_ext_def DeleteKey_def)

lemma unregister_loop_absent:
  "\<forall>ext\<in>set xs. command_key ext \<notin> set (map fst (registry s)) \<Longrightarrow>
   foldl (\<lambda>s' ext. unregister_ext E ext s') s xs =
     s\<lparr>stdout := stdout s @ map (\<lambda>ext. ''Error unregistering for '' @ ext @ '': '' @ command_key ext) xs\<rparr>"
proof (induction xs arbitrary: s)
  case Nil
  then show ?case by simp
next
  case (Cons x xs)
  let ?s = "print_line (''Error unregistering for '' @ x @ '': '' @ command_key x) s"
  have "\<forall>ext\<in>set xs. command_key ext \<notin> set (map fst (registry ?s))"
    using Cons.prems by (simp add: print_line_def)
  from Cons.IH [OF this] Cons.prems show ?case
    by (simp add: unregister_ext_absent print_line_def)
qed

section \<open>The claims\<close>

text \<open>
  C1.  For an image and a label mask of the same dimensions the output has the
  dimensions of the image, and at every position: where the label is definite or probable
  foreground the output pixel carries the original colour channels and alpha 255; where
  the label is definite or probable background the output pixel is (0, 0, 0) with alpha 0.
\<close>

theorem alpha_compositor_pixels:
  assumes "same_dims img msk" and "i < length img" and "j < length (img ! i)"
  shows "length (composite img msk) = length img
       \<and> length (composite img msk ! i) = length (img ! i)
       \<and> (msk ! i ! j = GC_PR_FGD \<or> msk ! i ! j = GC_FGD \<longrightarrow>
            composite img msk ! i ! j =
              (case img ! i ! j of (b, g, r) \<Rightarrow> (b, g, r, 255)))
       \<and> (msk ! i ! j = GC_PR_BGD \<or> msk ! i ! j = GC_BGD \<longrightarrow>
            composite img msk ! i ! j = (0, 0, 0, 0))"
proof -
  have rowlen: "length (composite img msk ! i) = length (img ! i)"
    using assms by (simp add: composite_row same_dims_row)
  have fg: "mask2_cell (msk ! i ! j) = 1"
    if "msk ! i ! j = GC_PR_FGD \<or> msk ! i ! j = GC_FGD"
    using that by (auto simp: mask2_cell_def GC_BGD_def GC_FGD_def GC_PR_BGD_def GC_PR_FGD_def)
  have bg: "mask2_cell (msk ! i ! j) = 0"
    if "msk ! i ! j = GC_PR_BGD \<or> msk ! i ! j = GC_BGD"
    using that by (auto simp: mask2_cell_def)
  show ?thesis
    using assms rowlen fg bg
    by (auto simp: composite_length composite_pixel times_cell_def split: prod.splits)
qed

theorem alpha_compositor_pixels_witness:
  "composite [[(10, 20, 30), (40, 50, 60)]] [[GC_PR_FGD, GC_PR_BGD]] ! 0 ! 0 = (10, 20, 30, 255)
 \<and> composite [[(10, 20, 30), (40, 50, 60)]] [[GC_PR_BGD, GC_FGD]] ! 0 ! 0 = (0, 0, 0, 0)"
proof -
  have d1: "same_dims [[(10, 20, 30), (40, 50, 60) :: pixel]] [[GC_PR_FGD, GC_PR_BGD]]"
    and d2: "same_dims [[(10, 20, 30), (40, 50, 60) :: pixel]] [[GC_PR_BGD, GC_FGD]]"
    by (simp_all add: same_dims_def)
  show ?thesis
    using alpha_compositor_pixels [OF d1, of 0 0] alpha_compositor_pixels [OF d2, of 0 0]
    by simp
qed

text \<open>
  C2, as stated, fails.  The 5 by 5 example image gives a rectangle that exceeds the
  image; \<^verbatim>\<open>remove_background\<close> hands it to the library unchecked, and where the
  library accepts the call the function goes on and returns True.
\<close>

theorem invalid_rect_not_rejected:
  "\<not> rect_within (width_of example_image) (height_of example_image)
        (init_rect (width_of example_image) (height_of example_image))
   \<and> imread example_env ''cat.jpg'' = Inr (Some example_image)
   \<and> fst (remove_background example_env ''cat.jpg'' ''cat_nobg.png'' empty_state) = Inr True"
  by (simp add: example_image_shape init_rect_def int_times_005_def int_times_01_def
      rect_within_def remove_background_def example_env_def Let_def)

text \<open>
  C2, amended.  A rectangle that \<^verbatim>\<open>cv2.grabCut\<close> rejects by raising makes
  \<^verbatim>\<open>remove_background\<close> fail with that exception rather than proceed: whatever the
  encoder is, it is not reached, nothing is printed and no file is touched.
\<close>

theorem rejected_rect_stops_run:
  assumes "imread E p = Inr (Some img)"
    and "grabCut E img (np_zeros (height_of img) (width_of img))
           (init_rect (width_of img) (height_of img)) 5 = Inl e"
  shows "remove_background (E\<lparr>imwrite := w\<rparr>) p out s = (Inl e, s)"
  using assms by (simp add: remove_background_def Let_def)

theorem rejected_rect_stops_run_witness:
  "remove_background (rejecting_env\<lparr>imwrite := imwrite truncating_env\<rparr>)
     ''cat.jpg'' ''cat_nobg.png'' stale_state
   = (Inl (Cv2_error ''grabCut failed''), stale_state)"
proof -
  have h1: "imread rejecting_env ''cat.jpg'' = Inr (Some example_image)"
    by (simp add: rejecting_env_def example_env_def)
  have h2: "grabCut rejecting_env example_image
              (np_zeros (height_of example_image) (width_of example_image))
              (init_rect (width_of example_image) (height_of example_image)) 5
            = Inl (Cv2_error ''grabCut failed'')"
    by (simp add: rejecting_env_def)
  show ?thesis
    using rejected_rect_stops_run [OF h1 h2] by simp
qed

text \<open>
  C3 against the code.  For a 5 by 5 image the rectangle is (1, 1, 5, 5) and for a 1 by 1
  image it is (1, 1, 1, 1): both reach one column and one row beyond the image.  The
  width and the height of the rectangle are positive for every image
  (\<open>init_rect_positive\<close>), the rectangle exceeds every image narrower than 10 pixels
  (\<open>init_rect_exceeds\<close>), and it lies strictly within the image from 20 by 20 pixels
  (\<open>init_rect_large\<close>).
\<close>

theorem init_rect_small_image:
  "init_rect 5 5 = (1, 1, 5, 5) \<and> \<not> rect_within 5 5 (init_rect 5 5)
   \<and> init_rect 1 1 = (1, 1, 1, 1) \<and> \<not> rect_within 1 1 (init_rect 1 1)"
  by (simp add: init_rect_def int_times_005_def int_times_01_def rect_within_def)







text \<open>
  C7.  For an input path \<open>d @ x @ ''.'' @ ext\<close>, where the name \<open>x\<close> holds no separator
  and a character other than a dot, and the extension \<open>ext\<close> holds no dot and no
  separator, the output path is \<open>d @ x @ ''_nobg.png''\<close>: the same directory prefix
  \<open>d\<close>, the same name.  The encoder is called on that path whether or not a file is
  there; where it stores the buffer the former content is replaced, and the run prints
  only the line that announces the processing and the line that reports success.
\<close>

theorem output_file_name:
  assumes "\<not> register a" and "\<not> unregister a" and "file a = Some (d @ x @ ''.'' @ ext)"
    and "\<forall>c\<in>set (x @ ext). \<not> is_sep E c" and "CHR ''.'' \<notin> set ext"
    and "\<exists>c\<in>set x. c \<noteq> CHR ''.''"
    and "path_exists E (d @ x @ ''.'' @ ext)"
    and "imread E (d @ x @ ''.'' @ ext) = Inr (Some img)"
    and "grabCut E img (np_zeros (height_of img) (width_of img))
           (init_rect (width_of img) (height_of img)) 5 = Inr lab"
    and "imwrite E (d @ x @ ''_nobg.png'')
           (composite img (written_mask (np_zeros (height_of img) (width_of img)) lab)) (files s)
         = (Inr True, (files s)(d @ x @ ''_nobg.png'' \<mapsto>
              composite img (written_mask (np_zeros (height_of img) (width_of img)) lab)))"
  shows "fst (splitext E (d @ x @ ''.'' @ ext)) @ ''_nobg.png'' = d @ x @ ''_nobg.png''
       \<and> fst (main E a s) = None
       \<and> files (snd (main E a s)) =
           (files s)(d @ x @ ''_nobg.png'' \<mapsto>
              composite img (written_mask (np_zeros (height_of img) (width_of img)) lab))
       \<and> stdout (snd (main E a s)) =
           stdout s @ [''Processing '' @ [apostrophe] @ d @ x @ ''.'' @ ext @ [apostrophe] @ '' -> ''
                        @ [apostrophe] @ d @ x @ ''_nobg.png'' @ [apostrophe],
                       ''Background removal complete.'']"
proof -
  have sp: "splitext E (d @ x @ ''.'' @ ext) = (d @ x, ''.'' @ ext)"
    using assms(4-6) by (rule splitext_name_ext)
  have ne: "d @ x @ ''.'' @ ext \<noteq> []" by simp
  show ?thesis
    using assms(1-3,7-10) ne sp
    by (simp add: main_def remove_background_def Let_def print_line_def)
qed

theorem output_file_name_witness:
  "files stale_state ''cat_nobg.png'' = Some [[(1, 2, 3, 4)]]
   \<and> fst (main example_env cat_args stale_state) = None
   \<and> files (snd (main example_env cat_args stale_state)) ''cat_nobg.png'' =
       Some (composite example_image (written_mask (np_zeros 5 5) example_labels))
   \<and> length (stdout (snd (main example_env cat_args stale_state))) = 2"
proof -
  have sh: "height_of example_image = 5" "width_of example_image = 5"
    using example_image_shape by simp_all
  have h1: "\<not> register cat_args" and h2: "\<not> unregister cat_args"
    and h3: "file cat_args = Some ([] @ ''cat'' @ ''.'' @ ''jpg'')"
    by (simp_all add: cat_args_def file_args_def)
  have h4: "\<forall>c\<in>set (''cat'' @ ''jpg''). \<not> is_sep example_env c"
    by (simp add: is_sep_def bslash_def)
  have h5: "CHR ''.'' \<notin> set ''jpg''" and h6: "\<exists>c\<in>set ''cat''. c \<noteq> CHR ''.''"
    by simp_all
  have h7: "path_exists example_env ([] @ ''cat'' @ ''.'' @ ''jpg'')"
    and h8: "imread example_env ([] @ ''cat'' @ ''.'' @ ''jpg'') = Inr (Some example_image)"
    by (simp_all add: example_env_def)
  have h9: "grabCut example_env example_image
              (np_zeros (height_of example_image) (width_of example_image))
              (init_rect (width_of example_image) (height_of example_image)) 5 = Inr example_labels"
    by (simp add: example_env_def example_labels_def fun_eq_iff)
  have h10: "imwrite example_env ([] @ ''cat'' @ ''_nobg.png'')
           (composite example_image (written_mask (np_zeros (height_of example_image) (width_of example_image)) example_labels))
           (files stale_state)
         = (Inr True, (files stale_state)([] @ ''cat'' @ ''_nobg.png'' \<mapsto>
              composite example_image (written_mask (np_zeros (height_of example_image) (width_of example_image)) example_labels)))"
    by (simp add: example_env_def)
  show ?thesis
    using output_file_name [OF h1 h2 h3 h4 h5 h6 h7 h8 h9 h10]
    by (simp add: sh stale_state_def)
qed

text \<open>
  C8.  Run on any store that holds an image and a mask of the same shape, the compositing
  lines return a new array that is \<open>composite\<close> of the two, whatever else the store
  holds and wherever the two lie; every array that was in the store, the image and the
  mask among them, is left as it was; and a second run on the store the first one left
  returns a buffer with the same content and leaves the first buffer as it was.
\<close>

theorem alpha_compositor_pure:
  assumes "lookup h a_img = Some (Image img)" and "lookup h a_mask = Some (Plane msk)"
    and "same_dims img msk"
  shows "\<exists>out h'. compositor a_img a_mask h = Some (out, h')
           \<and> lookup h' out = Some (Rgba (composite img msk))
           \<and> take (length h) h' = h
           \<and> (\<exists>out2 h2. compositor a_img a_mask h' = Some (out2, h2)
                 \<and> lookup h2 out2 = Some (Rgba (composite img msk))
                 \<and> take (length h') h2 = h')"
proof -
  have run: "\<exists>out h'. compositor a_img a_mask h = Some (out, h')
               \<and> lookup h' out = Some (Rgba (composite img msk))
               \<and> take (length h) h' = h"
    if i: "lookup h a_img = Some (Image img)" and m: "lookup h a_mask = Some (Plane msk)" for h
  proof -
    let ?m2 = "mask2_of msk"
    let ?fg = "times_mask img ?m2"
    let ?new = "[Plane ?m2, Image ?fg, Plane (alpha_of ?m2),
                 Plane (map (map (\<lambda>(b, g, r). b)) ?fg), Plane (map (map (\<lambda>(b, g, r). g)) ?fg),
                 Plane (map (map (\<lambda>(b, g, r). r)) ?fg), Rgba (composite img msk)]"
    from i m have lt: "a_img < length h" "a_mask < length h"
      and at: "h ! a_img = Image img" "h ! a_mask = Plane msk"
      by (simp_all add: lookup_def split: if_splits)
    have "compositor a_img a_mask h = Some (length h + 6, h @ ?new)"
      using lt at same_dims_mask2_of [OF assms(3)]
        same_dims_channel_alpha [OF same_dims_mask2_of [OF assms(3)]]
      by (simp add: same_dims_maps compositor_def np_where_bg_def np_multiply_def np_times_255_def
          cv2_split_op_def cv2_merge_op_def newaxis_view_def alloc_def lookup_def composite_def
          cv2_split_def Let_def nth_append)
    moreover have "lookup (h @ ?new) (length h + 6) = Some (Rgba (composite img msk))"
      by (simp add: lookup_def nth_append)
    moreover have "take (length h) (h @ ?new) = h" by simp
    ultimately show ?thesis by blast
  qed
  from run [OF assms(1,2)] obtain out h' where
    r1: "compositor a_img a_mask h = Some (out, h')"
    and c1: "lookup h' out = Some (Rgba (composite img msk))"
    and f1: "take (length h) h' = h"
    by blast
  have keep: "lookup h' a = lookup h a" if "lookup h a = Some x" for a x
  proof -
    from that have lt: "a < length h" by (simp add: lookup_def split: if_splits)
    have "length (take (length h) h') = length h" using f1 by simp
    then have "length h \<le> length h'" by simp
    moreover have "h' ! a = h ! a" using f1 lt by (metis nth_take)
    ultimately show ?thesis using lt by (simp add: lookup_def)
  qed
  have "lookup h' a_img = Some (Image img)" and "lookup h' a_mask = Some (Plane msk)"
    using keep assms by simp_all
  from run [OF this] r1 c1 f1 show ?thesis by blast
qed

theorem alpha_compositor_pure_witness:
  "\<exists>out h'. compositor 0 1 example_store = Some (out, h')
     \<and> lookup h' out = Some (Rgba (composite [[(10, 20, 30), (40, 50, 60)]] [[GC_PR_FGD, GC_PR_BGD]]))
     \<and> take (length example_store) h' = example_store
     \<and> (\<exists>out2 h2. compositor 0 1 h' = Some (out2, h2)
           \<and> lookup h2 out2 = Some (Rgba (composite [[(10, 20, 30), (40, 50, 60)]] [[GC_PR_FGD, GC_PR_BGD]]))
           \<and> take (length h') h2 = h')"
proof -
  have h1: "lookup example_store 0 = Some (Image [[(10, 20, 30), (40, 50, 60)]])"
    and h2: "lookup example_store 1 = Some (Plane [[GC_PR_FGD, GC_PR_BGD]])"
    by (simp_all add: lookup_def example_store_def)
  have h3: "same_dims [[(10, 20, 30), (40, 50, 60) :: pixel]] [[GC_PR_FGD, GC_PR_BGD]]"
    by (simp add: same_dims_def)
  show ?thesis
    using alpha_compositor_pure [OF h1 h2 h3] .
qed

text \<open>
  C9.  On a store whose keys are distinct and which lets the user write the eight keys of
  the four extensions: after \<^verbatim>\<open>register_context_menu\<close> has run twice, every
  extension has exactly one entry for the verb and exactly one for its command, with the
  title, the icon and the command as values, and the second run has left the store as
  the first run made it.  On a store with none of the command keys,
  \<^verbatim>\<open>unregister_context_menu\<close> returns with the store unchanged, having printed one
  line per extension, and no exception leaves \<^verbatim>\<open>main\<close>.
\<close>

theorem install_twice_uninstall_clean:
  assumes "has_winreg E" and "distinct (map fst (registry s))"
    and "\<forall>ext\<in>set extensions. \<not> reg_denied E (key_path ext) \<and> \<not> reg_denied E (command_key ext)"
  shows "(\<forall>ext\<in>set extensions.
            installed E (registry (register_context_menu E (register_context_menu E s))) ext)
       \<and> registry (register_context_menu E (register_context_menu E s)) =
           registry (register_context_menu E s)
       \<and> ((\<forall>ext\<in>set extensions. command_key ext \<notin> set (map fst (registry s))) \<longrightarrow>
            fst (main E \<lparr>register = False, unregister = True, file = None\<rparr> s) = None
            \<and> unregister_context_menu E s =
                s\<lparr>stdout := stdout s @
                    map (\<lambda>ext. ''Error unregistering for '' @ ext @ '': '' @ command_key ext)
                      extensions\<rparr>)"
proof -
  let ?s1 = "register_context_menu E s"
  have one: "distinct (map fst (registry ?s1))
             \<and> (\<forall>ext\<in>set extensions. installed E (registry ?s1) ext)"
    using register_loop [OF assms(3), of extensions s] assms(1,2)
    by (simp add: register_context_menu_def)
  then have two: "registry (register_context_menu E ?s1) = registry ?s1"
    using register_loop_noop [OF assms(3), of extensions ?s1] assms(1)
    by (simp add: register_context_menu_def)
  have three: "fst (main E \<lparr>register = False, unregister = True, file = None\<rparr> s) = None"
    by (simp add: main_def)
  have four: "unregister_context_menu E s =
                s\<lparr>stdout := stdout s @
                    map (\<lambda>ext. ''Error unregistering for '' @ ext @ '': '' @ command_key ext)
                      extensions\<rparr>"
    if "\<forall>ext\<in>set extensions. command_key ext \<notin> set (map fst (registry s))"
    using unregister_loop_absent [OF that] assms(1) by (simp add: unregister_context_menu_def)
  show ?thesis using one two three four by simp
qed

theorem install_twice_uninstall_clean_witness:
  "installed example_env
     (registry (register_context_menu example_env (register_context_menu example_env empty_state))) ''.jpg''
   \<and> length (entries (registry (register_context_menu example_env
                 (register_context_menu example_env empty_state))) (key_path ''.webp'')) = 1
   \<and> registry (register_context_menu example_env (register_context_menu example_env empty_state))
       = registry (register_context_menu example_env empty_state)
   \<and> registry (unregister_context_menu example_env empty_state) = []"
proof -
  have h1: "has_winreg example_env" by (simp add: example_env_def)
  have h2: "distinct (map fst (registry empty_state))" by (simp add: empty_state_def)
  have h3: "\<forall>ext\<in>set extensions. \<not> reg_denied example_env (key_path ext)
              \<and> \<not> reg_denied example_env (command_key ext)"
    by (simp add: example_env_def)
  let ?r = "registry (register_context_menu example_env (register_context_menu example_env empty_state))"
  note t = install_twice_uninstall_clean [OF h1 h2 h3]
  from t have all: "\<forall>ext\<in>set extensions. installed example_env ?r ext" by blast
  from t have idem: "?r = registry (register_context_menu example_env empty_state)" by blast
  from t have un: "(\<forall>ext\<in>set extensions. command_key ext \<notin> set (map fst (registry empty_state))) \<longrightarrow>
      unregister_context_menu example_env empty_state =
        empty_state\<lparr>stdout := stdout empty_state @
            map (\<lambda>ext. ''Error unregistering for '' @ ext @ '': '' @ command_key ext) extensions\<rparr>"
    by blast
  have jpg: "installed example_env ?r ''.jpg''" and webp: "installed example_env ?r ''.webp''"
    using all by (simp_all add: extensions_def)
  have one: "length (entries ?r (key_path ''.webp'')) = 1"
    using webp unfolding installed_def by blast
  have "\<forall>ext\<in>set extensions. command_key ext \<notin> set (map fst (registry empty_state))"
    by (simp add: empty_state_def)
  with un have "registry (unregister_context_menu example_env empty_state) = registry empty_state"
    by simp
  then have clean: "registry (unregister_context_menu example_env empty_state) = []"
    by (simp add: empty_state_def)
  from jpg one idem clean show ?thesis by blast
qed

text \<open>
  C10.  With \<^verbatim>\<open>--register\<close>, \<^verbatim>\<open>main\<close> is the registration, whatever the other flag
  and the file argument are.  Without it and with \<^verbatim>\<open>--unregister\<close>, \<^verbatim>\<open>main\<close> is the
  unregistration, whatever the file argument is.  The files change only in a run with
  neither flag and a file argument that names an existing file, and such a run is the
  processing of that file.
\<close>

theorem main_mode_precedence:
  "(register a \<longrightarrow> main E a s = (None, register_context_menu E s))
 \<and> (\<not> register a \<and> unregister a \<longrightarrow> main E a s = (None, unregister_context_menu E s))
 \<and> (register a \<longrightarrow> main E (a\<lparr>unregister := u, file := f\<rparr>) s = main E a s)
 \<and> (\<not> register a \<and> unregister a \<longrightarrow> main E (a\<lparr>file := f\<rparr>) s = main E a s)
 \<and> (files (snd (main E a s)) \<noteq> files s \<longrightarrow>
       \<not> register a \<and> \<not> unregister a
       \<and> (\<exists>input_file. file a = Some input_file \<and> input_file \<noteq> [] \<and> path_exists E input_file))
 \<and> (\<not> register a \<and> \<not> unregister a \<and> file a = Some g \<and> g \<noteq> [] \<and> path_exists E g \<longrightarrow>
       main E a s =
         (case remove_background E g (fst (splitext E g) @ ''_nobg.png'')
                 (print_line (''Processing '' @ [apostrophe] @ g @ [apostrophe] @ '' -> ''
                     @ [apostrophe] @ fst (splitext E g) @ ''_nobg.png'' @ [apostrophe]) s) of
            (Inl e, s2) \<Rightarrow> (Some e, s2)
          | (Inr ok, s2) \<Rightarrow>
              (None, print_line (if ok then ''Background removal complete.''
                                 else ''Background removal failed.'') s2)))"
proof -
  have p5: "files (snd (main E a s)) \<noteq> files s \<longrightarrow>
       \<not> register a \<and> \<not> unregister a
       \<and> (\<exists>input_file. file a = Some input_file \<and> input_file \<noteq> [] \<and> path_exists E input_file)"
    by (auto simp: main_def files_register_context_menu files_unregister_context_menu
        files_print_line split: option.splits if_splits)
  have p6: "\<not> register a \<and> \<not> unregister a \<and> file a = Some g \<and> g \<noteq> [] \<and> path_exists E g \<longrightarrow>
       main E a s =
         (case remove_background E g (fst (splitext E g) @ ''_nobg.png'')
                 (print_line (''Processing '' @ [apostrophe] @ g @ [apostrophe] @ '' -> ''
                     @ [apostrophe] @ fst (splitext E g) @ ''_nobg.png'' @ [apostrophe]) s) of
            (Inl e, s2) \<Rightarrow> (Some e, s2)
          | (Inr ok, s2) \<Rightarrow>
              (None, print_line (if ok then ''Background removal complete.''
                                 else ''Background removal failed.'') s2))"
    by (auto simp: main_def Let_def split: prod.splits sum.splits)
  have p1: "register a \<longrightarrow> main E a s = (None, register_context_menu E s)"
    and p2: "\<not> register a \<and> unregister a \<longrightarrow> main E a s = (None, unregister_context_menu E s)"
    and p3: "register a \<longrightarrow> main E (a\<lparr>unregister := u, file := f\<rparr>) s = main E a s"
    and p4: "\<not> register a \<and> unregister a \<longrightarrow> main E (a\<lparr>file := f\<rparr>) s = main E a s"
    by (simp_all add: main_def)
  from p1 p2 p3 p4 p5 p6 show ?thesis by blast
qed

theorem main_mode_precedence_witness:
  "main example_env \<lparr>register = True, unregister = True, file = Some ''cat.jpg''\<rparr> empty_state
     = (None, register_context_menu example_env empty_state)
   \<and> main example_env \<lparr>register = False, unregister = True, file = Some ''cat.jpg''\<rparr> empty_state
     = (None, unregister_context_menu example_env empty_state)
   \<and> fst (main example_env \<lparr>register = False, unregister = False, file = Some ''cat.jpg''\<rparr> empty_state)
     = None"
  using main_mode_precedence
          [of "\<lparr>register = True, unregister = True, file = Some ''cat.jpg''\<rparr>" example_env empty_state]
        main_mode_precedence
          [of "\<lparr>register = False, unregister = True, file = Some ''cat.jpg''\<rparr>" example_env empty_state]
        main_mode_precedence
          [of "\<lparr>register = False, unregister = False, file = Some ''cat.jpg''\<rparr>" example_env empty_state
              _ _ "''cat.jpg''"]
  by (simp add: example_env_def remove_background_def Let_def)

end
